theory Spec2Isabelle
  imports Main "HOL-Library.Sublist" "HOL-Library.List_Lexorder" "HOL-Library.AList"
begin

section \<open>Python strings\<close>

text \<open>
  A Python \<open>str\<close> is a sequence of Unicode code points; the scripts read their files in
  text mode, so slices and lengths count code points. A string is modelled as the list
  of its code points. The order on strings (\<open>sorted\<close>) is the lexicographic order on
  code points, which is the order of \<open>List_Lexorder\<close> on \<open>nat list\<close>.
\<close>

type_synonym pystr = "nat list"

definition str :: "string \<Rightarrow> pystr" where
  "str s = map of_char s"

definition dq :: nat where "dq = 34"
definition sq :: nat where "sq = 39"

text \<open>\<open>s[a:b]\<close> for indices \<open>0 \<le> a\<close>, \<open>0 \<le> b\<close>: out-of-range bounds are clipped.\<close>

definition slice :: "pystr \<Rightarrow> nat \<Rightarrow> nat \<Rightarrow> pystr" where
  "slice s a b = take (b - a) (drop a s)"

text \<open>\<open>s[:k]\<close> for a possibly negative \<open>k\<close> (a negative bound counts from the end).\<close>

definition slice_to :: "pystr \<Rightarrow> int \<Rightarrow> pystr" where
  "slice_to s k = (if k < 0 then take (nat (int (length s) + k)) s else take (nat k) s)"

text \<open>\<open>w in s\<close>: substring test.\<close>

fun py_in :: "pystr \<Rightarrow> pystr \<Rightarrow> bool" where
  "py_in w [] = (w = [])"
| "py_in w (x # xs) = (prefix w (x # xs) \<or> py_in w xs)"

text \<open>\<open>s.find(w)\<close>: the lowest index where \<open>w\<close> occurs in \<open>s\<close>, or \<open>-1\<close>.\<close>

fun find_from :: "pystr \<Rightarrow> pystr \<Rightarrow> nat \<Rightarrow> int" where
  "find_from [] w i = (if w = [] then int i else - 1)"
| "find_from (x # xs) w i = (if prefix w (x # xs) then int i else find_from xs w (Suc i))"

definition py_find :: "pystr \<Rightarrow> pystr \<Rightarrow> int" where
  "py_find s w = find_from s w 0"

text \<open>
  \<open>Path(p).name\<close>: the final component of a path. The paths the scripts pass come from
  \<open>glob\<close> and name files, so they do not end in a separator.
\<close>

definition path_name :: "pystr \<Rightarrow> pystr" where
  "path_name p = rev (takeWhile (\<lambda>c. c \<noteq> 47) (rev p))"

section \<open>The regular expressions of the scripts\<close>

text \<open>
  The patterns of the scripts are sequences of single characters, character classes,
  greedy and lazy repetitions of a character class, and capture groups around them.
  A character class is a list of inclusive code point ranges, possibly negated, or
  \<open>\s\<close>. \<open>Mark\<close> records the current position: a group is a pair of marks.
\<close>

datatype cls = InSet "(nat \<times> nat) list" | NotInSet "(nat \<times> nat) list" | Space

datatype item = One cls | Star cls | Plus cls | Lazy cls | Mark

fun in_ranges :: "nat \<Rightarrow> (nat \<times> nat) list \<Rightarrow> bool" where
  "in_ranges c [] = False"
| "in_ranges c ((lo, hi) # rs) = ((lo \<le> c \<and> c \<le> hi) \<or> in_ranges c rs)"

text \<open>\<open>\s\<close> in a \<open>str\<close> pattern: the code points for which \<open>str.isspace\<close> holds.\<close>

definition isspace :: "nat \<Rightarrow> bool" where
  "isspace c = in_ranges c [(9, 13), (28, 32), (133, 133), (160, 160), (5760, 5760),
     (8192, 8202), (8232, 8233), (8239, 8239), (8287, 8287), (12288, 12288)]"

fun cmatch :: "cls \<Rightarrow> nat \<Rightarrow> bool" where
  "cmatch (InSet rs) c = in_ranges c rs"
| "cmatch (NotInSet rs) c = (\<not> in_ranges c rs)"
| "cmatch Space c = isspace c"

text \<open>
  Backtracking matcher: \<open>rmatch p s i\<close> matches the pattern \<open>p\<close> against a prefix of the
  text \<open>s\<close> that starts at position \<open>i\<close> of the file, trying the alternatives in the
  order of the \<open>re\<close> module (a greedy repetition tries one more character first, a lazy
  one tries the rest of the pattern first). It returns the end position and the marks.
\<close>

fun rmatch :: "item list \<Rightarrow> pystr \<Rightarrow> nat \<Rightarrow> (nat \<times> nat list) option" where
  "rmatch [] s i = Some (i, [])"
| "rmatch (Mark # p) s i = map_option (\<lambda>(e, ms). (e, i # ms)) (rmatch p s i)"
| "rmatch (One c # p) [] i = None"
| "rmatch (One c # p) (x # xs) i = (if cmatch c x then rmatch p xs (Suc i) else None)"
| "rmatch (Plus c # p) [] i = None"
| "rmatch (Plus c # p) (x # xs) i =
     (if cmatch c x then rmatch (Star c # p) xs (Suc i) else None)"
| "rmatch (Star c # p) [] i = rmatch p [] i"
| "rmatch (Star c # p) (x # xs) i =
     (if cmatch c x
      then (case rmatch (Star c # p) xs (Suc i) of
              Some r \<Rightarrow> Some r
            | None \<Rightarrow> rmatch p (x # xs) i)
      else rmatch p (x # xs) i)"
| "rmatch (Lazy c # p) [] i = rmatch p [] i"
| "rmatch (Lazy c # p) (x # xs) i =
     (case rmatch p (x # xs) i of
        Some r \<Rightarrow> Some r
      | None \<Rightarrow> if cmatch c x then rmatch (Lazy c # p) xs (Suc i) else None)"

text \<open>
  \<open>re.finditer\<close>: the non-overlapping matches from left to right, as triples of start,
  end and marks. After a match the scan goes on at its end. (The patterns of the
  scripts start with a literal, so no match is empty; after an empty match the scan
  moves one character on.)
\<close>

function finditer :: "item list \<Rightarrow> pystr \<Rightarrow> nat \<Rightarrow> (nat \<times> nat \<times> nat list) list" where
  "finditer p [] i = (case rmatch p [] i of Some (e, ms) \<Rightarrow> [(i, e, ms)] | None \<Rightarrow> [])"
| "finditer p (x # xs) i =
     (case rmatch p (x # xs) i of
        None \<Rightarrow> finditer p xs (Suc i)
      | Some (e, ms) \<Rightarrow>
          (i, e, ms) # (if i < e then finditer p (drop (e - i) (x # xs)) e
                        else finditer p xs (Suc i)))"
  by pat_completeness auto
termination
  by (relation "measure (\<lambda>(p, s, i). length s)") auto

text \<open>
  \<open>match.start()\<close>, \<open>match.end()\<close>, \<open>match.group(0)\<close> and \<open>match.group(n)\<close> for
  \<open>n \<ge> 1\<close>.
\<close>

definition m_start :: "nat \<times> nat \<times> nat list \<Rightarrow> nat" where
  "m_start m = fst m"

definition m_end :: "nat \<times> nat \<times> nat list \<Rightarrow> nat" where
  "m_end m = fst (snd m)"

definition m_group0 :: "pystr \<Rightarrow> nat \<times> nat \<times> nat list \<Rightarrow> pystr" where
  "m_group0 content m = slice content (fst m) (fst (snd m))"

definition m_group :: "pystr \<Rightarrow> nat \<times> nat \<times> nat list \<Rightarrow> nat \<Rightarrow> pystr" where
  "m_group content m n =
     (case drop (2 * (n - 1)) (snd (snd m)) of
        a # b # _ \<Rightarrow> slice content a b
      | _ \<Rightarrow> [])"

definition lit :: "string \<Rightarrow> item list" where
  "lit s = map (\<lambda>c. One (InSet [(of_char c, of_char c)])) s"

definition quotes :: "(nat \<times> nat) list" where
  "quotes = [(dq, dq), (sq, sq)]"

text \<open>
  \<^verbatim>\<open>server\.registerTool\(\s*["\']([^"\']+)["\'],\s*\{[^}]*?description:\s*["\']([^"\']+)\<close>
  (the flag \<open>re.DOTALL\<close> changes the meaning of an unescaped dot only, and the pattern
  has none).
\<close>

definition source_pattern :: "item list" where
  "source_pattern =
     lit ''server.registerTool('' @
     [Star Space, One (InSet quotes), Mark, Plus (NotInSet quotes), Mark, One (InSet quotes)] @
     lit '','' @ [Star Space] @ lit ''{'' @ [Lazy (NotInSet [(125, 125)])] @
     lit ''description:'' @
     [Star Space, One (InSet quotes), Mark, Plus (NotInSet quotes), Mark]"

text \<open>\<^verbatim>\<open>server\.registerTool\(\s*["\']([^"\']+)["\']\<close>\<close>

definition names_pattern :: "item list" where
  "names_pattern =
     lit ''server.registerTool('' @
     [Star Space, One (InSet quotes), Mark, Plus (NotInSet quotes), Mark, One (InSet quotes)]"

text \<open>\<^verbatim>\<open>spectree__[a-z_]+\<close>\<close>

definition doc_pattern :: "item list" where
  "doc_pattern = lit ''spectree__'' @ [Plus (InSet [(97, 122), (95, 95)])]"

section \<open>audit-tool-docs.py\<close>

record tool =
  tool_file :: pystr
  deprecated :: bool
  description :: pystr

definition DEPRECATED :: pystr where
  "DEPRECATED = str ''DEPRECATED''"

text \<open>The warning glyph: U+26A0 followed by the variation selector U+FE0F.\<close>

definition warning_glyph :: pystr where
  "warning_glyph = [9888, 65039]"

definition namespace :: pystr where
  "namespace = str ''spectree__''"

text \<open>
  The body of the loop over the matches of one file (lines 23 to 35). The unused local
  \<open>preceding\<close> of line 28 is left out.
\<close>

definition register :: "pystr \<Rightarrow> pystr \<Rightarrow> nat \<times> nat \<times> nat list \<Rightarrow>
    (pystr \<times> tool) list \<Rightarrow> (pystr \<times> tool) list" where
  "register file_path content m tools =
     (let tool_name = m_group content m 1 in
      if prefix namespace tool_name
      then (let desc_start = m_start m;
                dep = (py_in DEPRECATED (slice content desc_start (desc_start + 200))
                       \<or> py_in warning_glyph (slice content desc_start (desc_start + 200)))
            in AList.update tool_name
                 \<lparr>tool_file = file_path, deprecated = dep,
                  description = (if length (m_group content m 2) > 100
                                 then take 100 (m_group content m 2) @ str ''...''
                                 else m_group content m 2)\<rparr> tools)
      else tools)"

definition scan_file :: "pystr \<times> pystr \<Rightarrow> (pystr \<times> tool) list \<Rightarrow> (pystr \<times> tool) list" where
  "scan_file f tools =
     fold (register (fst f) (snd f)) (finditer source_pattern (snd f) 0) tools"

text \<open>
  \<open>extract_tools_from_source\<close>. The argument is what \<open>glob\<close> finds: the paths under the
  tools directory, each with the content that \<open>read\<close> returns for it. The dictionary
  \<open>tools\<close> is an association list in insertion order; an assignment to a key that is
  present replaces its value.
\<close>

definition extract_tools_from_source :: "(pystr \<times> pystr) list \<Rightarrow> (pystr \<times> tool) list" where
  "extract_tools_from_source globbed =
     (let tool_files = filter (\<lambda>f. \<not> suffix (str ''.test.ts'') (fst f)) globbed
      in fold scan_file (sort_key fst tool_files) [])"

text \<open>
  \<open>doc_mentions[tool_name].append(label)\<close> on a \<open>defaultdict(list)\<close>: a missing key
  starts from the empty list.
\<close>

definition mentions :: "(pystr \<times> pystr list) list \<Rightarrow> pystr \<Rightarrow> pystr list" where
  "mentions dm k = (case map_of dm k of None \<Rightarrow> [] | Some ls \<Rightarrow> ls)"

definition dd_append :: "pystr \<Rightarrow> pystr \<Rightarrow> (pystr \<times> pystr list) list \<Rightarrow>
    (pystr \<times> pystr list) list" where
  "dd_append label k dm = AList.update k (mentions dm k @ [label]) dm"

text \<open>\<open>re.findall\<close> for a pattern without groups: the matched texts.\<close>

definition findall :: "item list \<Rightarrow> pystr \<Rightarrow> pystr list" where
  "findall p content = map (m_group0 content) (finditer p content 0)"

text \<open>
  The body of the loop over the documents (lines 44 to 49). The iteration order of
  \<open>set(matches)\<close> is not specified by Python; the model visits the distinct matches in
  the order of their last occurrence. Each identifier has its own list, so the order
  only decides where a new key is inserted.
\<close>

definition scan_doc :: "pystr \<times> pystr \<Rightarrow> (pystr \<times> pystr list) list \<Rightarrow>
    (pystr \<times> pystr list) list" where
  "scan_doc d dm =
     fold (dd_append (path_name (fst d))) (remdups (findall doc_pattern (snd d))) dm"

definition extract_tools_from_docs :: "(pystr \<times> pystr) list \<Rightarrow> (pystr \<times> pystr list) list" where
  "extract_tools_from_docs doc_files = fold scan_doc (sort_key fst doc_files) []"

text \<open>
  The main part of the script (lines 59 to 127), without the printing: the summary
  counts, the three lists and the branch that the last \<open>if\<close> takes.
\<close>

record audit_result =
  n_source :: nat
  n_docs :: nat
  n_deprecated :: nat
  not_in_source :: "pystr list"
  deprecated_in_docs :: "pystr list"
  not_documented :: "pystr list"
  failed :: bool

definition audit :: "(pystr \<times> tool) list \<Rightarrow> (pystr \<times> pystr list) list \<Rightarrow> audit_result" where
  "audit source_tools doc_tools =
     (let nis = filter (\<lambda>tool_name. map_of source_tools tool_name = None)
                  (sort (map fst doc_tools));
          did = filter (\<lambda>tool_name. case map_of source_tools tool_name of
                                        None \<Rightarrow> False | Some t \<Rightarrow> deprecated t)
                  (sort (map fst doc_tools));
          nd = filter (\<lambda>tool_name. map_of doc_tools tool_name = None)
                  (sort (map fst source_tools))
      in \<lparr>n_source = length source_tools,
          n_docs = length doc_tools,
          n_deprecated = length (filter deprecated (map snd source_tools)),
          not_in_source = nis,
          deprecated_in_docs = did,
          not_documented = nd,
          failed = (nis \<noteq> [] \<or> did \<noteq> [])\<rparr>)"

definition audit_main :: "(pystr \<times> pystr) list \<Rightarrow> (pystr \<times> pystr) list \<Rightarrow> audit_result" where
  "audit_main globbed doc_files =
     audit (extract_tools_from_source globbed) (extract_tools_from_docs doc_files)"

section \<open>extract-tool-names.py\<close>

record entry =
  entry_name :: pystr
  entry_file :: pystr
  entry_deprecated :: bool

text \<open>\<open>re.findall\<close> for a pattern with one group: the texts of the group.\<close>

definition findall1 :: "item list \<Rightarrow> pystr \<Rightarrow> pystr list" where
  "findall1 p content = map (\<lambda>m. m_group content m 1) (finditer p content 0)"

definition list_name :: "pystr \<Rightarrow> pystr \<Rightarrow> pystr \<Rightarrow> entry list \<Rightarrow> entry list" where
  "list_name file_path content match tools =
     (if prefix namespace match
      then tools @ [\<lparr>entry_name = match, entry_file = file_path,
                     entry_deprecated =
                       py_in DEPRECATED (slice_to content (py_find content match))\<rparr>]
      else tools)"

definition list_file :: "pystr \<times> pystr \<Rightarrow> entry list \<Rightarrow> entry list" where
  "list_file f tools =
     fold (list_name (fst f) (snd f)) (findall1 names_pattern (snd f)) tools"

definition extract_tool_names :: "(pystr \<times> pystr) list \<Rightarrow> entry list" where
  "extract_tool_names globbed =
     (let tool_files = filter (\<lambda>f. \<not> suffix (str ''.test.ts'') (fst f)) globbed
      in fold list_file (sort_key fst tool_files) [])"

section \<open>Notions used in the statements\<close>

text \<open>\<open>first_at k w s\<close>: \<open>k\<close> is the lowest index at which \<open>w\<close> occurs in \<open>s\<close>.\<close>

definition first_at :: "nat \<Rightarrow> pystr \<Rightarrow> pystr \<Rightarrow> bool" where
  "first_at k w s = (k \<le> length s \<and> prefix w (drop k s) \<and> (\<forall>j<k. \<not> prefix w (drop j s)))"

text \<open>The identifiers under which the matches in a source text store a record.\<close>

definition registered :: "pystr \<Rightarrow> pystr set" where
  "registered content =
     {m_group content m 1 |m. m \<in> set (finditer source_pattern content 0) \<and>
        prefix namespace (m_group content m 1)}"

text \<open>The paths that the filter of the test files keeps.\<close>

definition is_tool_file :: "pystr \<Rightarrow> bool" where
  "is_tool_file p = (\<not> suffix (str ''.test.ts'') p)"

section \<open>Sample inputs\<close>

text \<open>
  The scenarios of the specification, as texts. In the first the deprecated tool comes
  first, so that its marker is outside the window of the other registration.
\<close>

definition dquoted :: "string \<Rightarrow> pystr" where
  "dquoted s = [dq] @ str s @ [dq]"

definition scenario1_ts :: pystr where
  "scenario1_ts =
     str ''server.registerTool('' @ dquoted ''spectree__old_tool'' @ str '', { description: '' @
       dquoted ''DEPRECATED: use search'' @ str '' }, old);'' @ [10] @
     str ''server.registerTool('' @ dquoted ''spectree__search'' @ str '', { description: '' @
       dquoted ''Search'' @ str '' }, search);''"

definition scenario1_md :: pystr where
  "scenario1_md = str ''Use `spectree__search`, not `spectree__old_tool` or spectree__typo_tool.''"

definition scenario2_ts :: pystr where
  "scenario2_ts =
     str ''server.registerTool('' @ dquoted ''spectree__a'' @ str '', { description: '' @
       dquoted ''A'' @ str '' }, a);'' @ [10] @
     str ''server.registerTool('' @ dquoted ''spectree__b'' @ str '', { description: '' @
       dquoted ''B'' @ str '' }, b);''"

definition scenario2_md :: pystr where
  "scenario2_md = str ''Only spectree__a is described, spectree__a twice.''"

text \<open>
  A registration with mismatched quotes, registrations with and without the namespace
  prefix, one whose description starts with the warning glyph, and one with a
  description of 101 characters.
\<close>

definition mixed_ts :: pystr where
  "mixed_ts =
     str ''server.registerTool('' @ [dq] @ str ''spectree__x'' @ [sq] @
     str '', { description: '' @ [sq] @ str ''d'' @ [dq] @ str '' }, x);''"

definition foreign_ts :: pystr where
  "foreign_ts =
     str ''server.registerTool('' @ dquoted ''other__x'' @ str '', { description: '' @
       dquoted ''X'' @ str '' }, x);'' @ [10] @
     str ''server.registerTool('' @ dquoted ''spectree__y'' @ str '', { description: '' @
       dquoted ''Y'' @ str '' }, y);''"

definition glyph_ts :: pystr where
  "glyph_ts =
     str ''// tools'' @ [10] @
     str ''server.registerTool('' @ dquoted ''spectree__g'' @ str '', { description: '' @
       [dq] @ warning_glyph @ str '' use spectree__h'' @ [dq] @ str '' }, g);''"


text \<open>
  A file with the marker in a comment above the registration, two files that register
  the same identifier with different flags, and a document that mentions one
  identifier three times.
\<close>

definition listed_ts :: pystr where
  "listed_ts =
     str ''// DEPRECATED helpers were removed'' @ [10] @
     str ''server.registerTool('' @ dquoted ''spectree__n'' @ str '', { description: '' @
       dquoted ''N'' @ str '' }, n);''"

definition dup_a_ts :: pystr where
  "dup_a_ts =
     str ''server.registerTool('' @ dquoted ''spectree__dup'' @ str '', { description: '' @
       dquoted ''DEPRECATED: first'' @ str '' }, a);''"

definition dup_b_ts :: pystr where
  "dup_b_ts =
     str ''server.registerTool('' @ dquoted ''spectree__dup'' @ str '', { description: '' @
       dquoted ''second'' @ str '' }, b);''"

definition thrice_md :: pystr where
  "thrice_md = str ''spectree__foo, spectree__foo and again spectree__foo.''"

text \<open>
  A file with two registrations, the second with its fields separated by newlines and
  blanks and with an unclosed brace before the description; a registration with a
  closed pair of braces before the description; and a registration that starts inside
  the unfinished options of another.
\<close>

definition spread_ts :: pystr where
  "spread_ts =
     str ''server.registerTool('' @ dquoted ''spectree__r'' @ str '', { description: '' @
       dquoted ''R'' @ str '' }, r);'' @ [10] @
     str ''server.registerTool('' @ [10, 32, 32] @ dquoted ''spectree__s'' @ str '','' @
     [10, 32, 32] @ str ''{ title: ${ description:'' @ [10, 9] @ dquoted ''S'' @ str '' }, s);''"

definition nested_ts :: pystr where
  "nested_ts =
     str ''server.registerTool('' @ dquoted ''spectree__x'' @
     str '', { inputSchema: { a: 1 }, description: '' @ dquoted ''X'' @ str '' }, x);''"

definition inner_ts :: pystr where
  "inner_ts =
     str ''server.registerTool('' @ dquoted ''spectree__a'' @ str '', { '' @
     str ''server.registerTool('' @ dquoted ''spectree__b'' @ str '', { description: '' @
     dquoted ''B'' @ str '' }, b);''"

section \<open>The string primitives\<close>

lemma py_in_sublist: "py_in w s \<longleftrightarrow> sublist w s"
  by (induction s) (auto simp: sublist_Cons_right)

lemma find_from_ge: "find_from s w i = - 1 \<or> int i \<le> find_from s w i"
  by (induction s w i rule: find_from.induct) auto

lemma find_from_shift: "find_from s w i = (if find_from s w 0 = - 1 then - 1 else find_from s w 0 + int i)"
proof (induction s arbitrary: i)
  case Nil
  then show ?case by simp
next
  case (Cons x xs)
  have a: "find_from xs w (Suc i) = (if find_from xs w 0 = - 1 then - 1 else find_from xs w 0 + int (Suc i))"
    by (rule Cons.IH)
  have b: "find_from xs w (Suc 0) = (if find_from xs w 0 = - 1 then - 1 else find_from xs w 0 + int (Suc 0))"
    by (rule Cons.IH)
  have c: "0 \<le> find_from xs w 0 \<or> find_from xs w 0 = - 1"
    using find_from_ge [of xs w 0] by auto
  show ?case using a b c by auto
qed

lemma py_find_found:
  "prefix w (drop k s) \<Longrightarrow> k \<le> length s \<Longrightarrow> \<exists>j. py_find s w = int j \<and> first_at j w s"
  unfolding py_find_def
proof (induction s arbitrary: k)
  case Nil
  then show ?case by (auto simp: first_at_def)
next
  case (Cons x xs)
  show ?case
  proof (cases "prefix w (x # xs)")
    case True
    then show ?thesis by (auto simp: first_at_def intro!: exI[of _ 0])
  next
    case False
    with Cons.prems obtain k' where k': "k = Suc k'" by (cases k) auto
    with Cons.prems have "prefix w (drop k' xs)" "k' \<le> length xs" by auto
    from Cons.IH [OF this] obtain j where j: "find_from xs w 0 = int j" "first_at j w xs" by auto
    have "find_from (x # xs) w 0 = find_from xs w (Suc 0)" using False by simp
    also have "\<dots> = int (Suc j)" using j(1) find_from_shift [of xs w "Suc 0"] by auto
    finally have 1: "find_from (x # xs) w 0 = int (Suc j)" .
    have 2: "first_at (Suc j) w (x # xs)"
      using j(2) False unfolding first_at_def
      by (auto simp: less_Suc_eq_0_disj)
    from 1 2 show ?thesis by blast
  qed
qed

section \<open>The matcher\<close>

lemma in_ranges_single [simp]: "in_ranges x [(k, k)] \<longleftrightarrow> x = k"
  by auto

lemma lit_Nil [simp]: "lit [] = []"
  by (simp add: lit_def)

lemma lit_Cons: "lit (c # w) = One (InSet [(of_char c, of_char c)]) # lit w"
  by (simp add: lit_def)

lemma str_Nil [simp]: "str [] = []"
  by (simp add: str_def)

lemma str_Cons: "str (c # w) = of_char c # str w"
  by (simp add: str_def)

lemma length_str [simp]: "length (str w) = length w"
  by (simp add: str_def)

lemma rmatch_lit:
  "rmatch (lit w @ p) s i =
     (if prefix (str w) s then rmatch p (drop (length w) s) (i + length w) else None)"
proof (induction w arbitrary: s i)
  case Nil
  then show ?case by simp
next
  case (Cons c w)
  show ?case
  proof (cases s)
    case Nil
    then show ?thesis by (simp add: lit_Cons str_Cons)
  next
    case (Cons x xs)
    then show ?thesis using Cons.IH [of xs "Suc i"] by (simp add: lit_Cons str_Cons)
  qed
qed

lemma rmatch_lit_app:
  "rmatch (lit w @ p) (str w @ s) i = rmatch p s (i + length w)"
  by (simp add: rmatch_lit)

lemma rmatch_Star_run:
  assumes "\<forall>x\<in>set ws. cmatch c x"
    and "\<And>x t j. cmatch c x \<Longrightarrow> rmatch p (x # t) j = None"
  shows "rmatch (Star c # p) (ws @ s) i = rmatch (Star c # p) s (i + length ws)"
  using assms(1)
proof (induction ws arbitrary: i)
  case Nil
  then show ?case by simp
next
  case (Cons w ws)
  then have "rmatch (Star c # p) (ws @ s) (Suc i) = rmatch (Star c # p) s (Suc i + length ws)"
    by simp
  moreover have "rmatch p (w # ws @ s) i = None" using Cons.prems assms(2) by simp
  ultimately show ?case using Cons.prems by (simp split: option.splits)
qed

lemma rmatch_Star_stop:
  "s = [] \<or> \<not> cmatch c (hd s) \<Longrightarrow> rmatch (Star c # p) s i = rmatch p s i"
  by (cases s) auto

lemma rmatch_Star_skip:
  assumes "\<forall>x\<in>set ws. cmatch c x"
    and "\<And>x t j. cmatch c x \<Longrightarrow> rmatch p (x # t) j = None"
    and "s = [] \<or> \<not> cmatch c (hd s)"
  shows "rmatch (Star c # p) (ws @ s) i = rmatch p s (i + length ws)"
  using rmatch_Star_run [OF assms(1,2)] rmatch_Star_stop [OF assms(3)] by simp

lemma rmatch_Plus_skip:
  assumes "ws \<noteq> []" "\<forall>x\<in>set ws. cmatch c x"
    and "\<And>x t j. cmatch c x \<Longrightarrow> rmatch p (x # t) j = None"
    and "s = [] \<or> \<not> cmatch c (hd s)"
  shows "rmatch (Plus c # p) (ws @ s) i = rmatch p s (i + length ws)"
proof -
  from assms(1) obtain w ws' where ws: "ws = w # ws'" by (cases ws) auto
  with assms(2) have "\<forall>x\<in>set ws'. cmatch c x" "cmatch c w" by auto
  then show ?thesis
    using rmatch_Star_skip [OF _ assms(3) assms(4), of ws' "Suc i"] ws by simp
qed

lemma rmatch_Star_total:
  assumes "\<And>t j. rmatch p t j \<noteq> None"
  shows "rmatch (Star c # p) s i \<noteq> None"
proof (induction s arbitrary: i)
  case Nil
  then show ?case using assms [of "[]" i] by simp
next
  case (Cons x xs)
  show ?case
    using assms [of "x # xs" i] Cons [of "Suc i"] by (simp split: option.splits)
qed

lemma rmatch_Lazy_reach:
  assumes "\<forall>x\<in>set mid. cmatch c x" and "rmatch p s (i + length mid) \<noteq> None"
  shows "rmatch (Lazy c # p) (mid @ s) i \<noteq> None"
  using assms
proof (induction mid arbitrary: i)
  case Nil
  then show ?case by (cases s) (auto split: option.splits)
next
  case (Cons x mid)
  then have "rmatch (Lazy c # p) (mid @ s) (Suc i) \<noteq> None" by simp
  then show ?case using Cons.prems by (auto split: option.splits)
qed

lemma finditer_start:
  "m \<in> set (finditer (lit w @ p) s i) \<Longrightarrow>
     \<exists>k. fst m = i + k \<and> prefix (str w) (drop k s)"
proof (induction "lit w @ p" s i rule: finditer.induct)
  case (1 i)
  then show ?case by (auto simp: rmatch_lit split: option.splits if_splits)
next
  case (2 x xs i)
  show ?case
  proof (cases "rmatch (lit w @ p) (x # xs) i")
    case None
    with 2 obtain k where "fst m = Suc i + k" "prefix (str w) (drop k xs)"
      by auto
    then show ?thesis by (intro exI [of _ "Suc k"]) simp
  next
    case (Some r)
    obtain e ms where r: "r = (e, ms)" by (cases r)
    have here: "prefix (str w) (x # xs)"
      using Some by (simp add: rmatch_lit split: if_splits)
    from "2.prems" Some r consider "m = (i, e, ms)"
      | "i < e" "m \<in> set (finditer (lit w @ p) (drop (e - i) (x # xs)) e)"
      | "\<not> i < e" "m \<in> set (finditer (lit w @ p) xs (Suc i))"
      by (auto split: if_splits)
    then show ?thesis
    proof cases
      case 1
      then show ?thesis using here by (intro exI [of _ 0]) simp
    next
      case 2
      from "2.hyps"(2) [OF Some r [symmetric] 2] obtain k where
        k: "fst m = e + k" "prefix (str w) (drop k (drop (e - i) (x # xs)))" by auto
      show ?thesis using k 2(1) by (intro exI [of _ "k + (e - i)"]) auto
    next
      case 3
      from "2.hyps"(3) [OF Some r [symmetric] 3] obtain k where
        "fst m = Suc i + k" "prefix (str w) (drop k xs)" by auto
      then show ?thesis by (intro exI [of _ "Suc k"]) simp
    qed
  qed
qed

lemma finditer_hd:
  "rmatch p s i = Some (e, ms) \<Longrightarrow> (i, e, ms) \<in> set (finditer p s i)"
  by (cases s) auto

lemma finditer_reaches:
  assumes "rmatch p (drop (n - i) s) n = Some (e, ms)" and "i \<le> n" and "n \<le> i + length s"
    and "\<forall>m\<in>set (finditer p s i). fst m < n \<longrightarrow> fst (snd m) \<le> n"
  shows "(n, e, ms) \<in> set (finditer p s i)"
  using assms
proof (induction p s i rule: finditer.induct)
  case (1 p i)
  then have "i = n" by simp
  with 1 show ?case by simp
next
  case (2 p x xs i)
  show ?case
  proof (cases "i = n")
    case True
    with "2.prems"(1) show ?thesis by simp
  next
    case False
    with "2.prems"(2) have lt: "i < n" by simp
    then have dr: "drop (n - i) (x # xs) = drop (n - Suc i) xs"
      by (simp add: Suc_diff_Suc [symmetric])
    show ?thesis
    proof (cases "rmatch p (x # xs) i")
      case None
      have "(n, e, ms) \<in> set (finditer p xs (Suc i))"
      proof (rule "2.IH"(1) [OF None])
        show "rmatch p (drop (n - Suc i) xs) n = Some (e, ms)" using "2.prems"(1) dr by simp
        show "Suc i \<le> n" using lt by simp
        show "n \<le> Suc i + length xs" using "2.prems"(3) by simp
        show "\<forall>m\<in>set (finditer p xs (Suc i)). fst m < n \<longrightarrow> fst (snd m) \<le> n"
          using "2.prems"(4) None by simp
      qed
      with None show ?thesis by simp
    next
      case (Some r)
      obtain e' ms' where r: "r = (e', ms')" by (cases r)
      have "(i, e', ms') \<in> set (finditer p (x # xs) i)" using Some r by simp
      with "2.prems"(4) lt have e': "e' \<le> n" by fastforce
      show ?thesis
      proof (cases "i < e'")
        case True
        have "(n, e, ms) \<in> set (finditer p (drop (e' - i) (x # xs)) e')"
        proof (rule "2.IH"(2) [OF Some r [symmetric] True])
          have "drop (n - e') (drop (e' - i) (x # xs)) = drop (n - i) (x # xs)"
            using True e' by (simp del: drop_Suc_Cons)
          then show "rmatch p (drop (n - e') (drop (e' - i) (x # xs))) n = Some (e, ms)"
            using "2.prems"(1) by simp
          show "e' \<le> n" by (rule e')
          show "n \<le> e' + length (drop (e' - i) (x # xs))"
            using "2.prems"(3) e' True by simp
          show "\<forall>m\<in>set (finditer p (drop (e' - i) (x # xs)) e'). fst m < n \<longrightarrow> fst (snd m) \<le> n"
            using "2.prems"(4) Some r True by simp
        qed
        with Some r True show ?thesis by simp
      next
        case False
        have "(n, e, ms) \<in> set (finditer p xs (Suc i))"
        proof (rule "2.IH"(3) [OF Some r [symmetric] False])
          show "rmatch p (drop (n - Suc i) xs) n = Some (e, ms)" using "2.prems"(1) dr by simp
          show "Suc i \<le> n" using lt by simp
          show "n \<le> Suc i + length xs" using "2.prems"(3) by simp
          show "\<forall>m\<in>set (finditer p xs (Suc i)). fst m < n \<longrightarrow> fst (snd m) \<le> n"
            using "2.prems"(4) Some r False by simp
        qed
        with Some r False show ?thesis by simp
      qed
    qed
  qed
qed

section \<open>The dictionary of tools\<close>

lemma map_of_register:
  "map_of (register fp c m tools) k =
     (case map_of (register fp c m []) k of Some r \<Rightarrow> Some r | None \<Rightarrow> map_of tools k)"
  by (simp add: register_def Let_def update_conv')

lemma register_Nil_Some:
  "map_of (register fp c m []) k = Some r \<longleftrightarrow>
     k = m_group c m 1 \<and> prefix namespace k \<and>
     r = \<lparr>tool_file = fp,
          deprecated = (py_in DEPRECATED (slice c (m_start m) (m_start m + 200))
                        \<or> py_in warning_glyph (slice c (m_start m) (m_start m + 200))),
          description = (if length (m_group c m 2) > 100
                         then take 100 (m_group c m 2) @ str ''...'' else m_group c m 2)\<rparr>"
  by (auto simp: register_def Let_def split: if_splits)

lemma keys_register:
  "fst ` set (register fp c m tools) =
     fst ` set tools \<union> (if prefix namespace (m_group c m 1) then {m_group c m 1} else {})"
  by (auto simp: register_def Let_def dom_update)

lemma map_of_fold_register:
  "map_of (fold (register fp c) ms tools) k =
     (case map_of (fold (register fp c) ms []) k of Some r \<Rightarrow> Some r | None \<Rightarrow> map_of tools k)"
proof (induction ms arbitrary: tools)
  case Nil
  then show ?case by simp
next
  case (Cons m ms)
  have "map_of (fold (register fp c) (m # ms) tools) k =
        (case map_of (fold (register fp c) ms []) k of
           Some r \<Rightarrow> Some r | None \<Rightarrow> map_of (register fp c m tools) k)"
    using Cons.IH [of "register fp c m tools"] by simp
  moreover have "map_of (fold (register fp c) (m # ms) []) k =
        (case map_of (fold (register fp c) ms []) k of
           Some r \<Rightarrow> Some r | None \<Rightarrow> map_of (register fp c m []) k)"
    using Cons.IH [of "register fp c m []"] by simp
  ultimately show ?case
    using map_of_register [of fp c m tools k] by (simp split: option.splits)
qed

lemma map_of_scan_file:
  "map_of (scan_file f tools) k =
     (case map_of (scan_file f []) k of Some r \<Rightarrow> Some r | None \<Rightarrow> map_of tools k)"
  unfolding scan_file_def by (rule map_of_fold_register)

lemma fold_register_origin:
  "map_of (fold (register fp c) ms tools) k = Some r \<Longrightarrow>
     map_of tools k = Some r \<or> (\<exists>m\<in>set ms. map_of (register fp c m []) k = Some r)"
proof (induction ms arbitrary: tools)
  case Nil
  then show ?case by simp
next
  case (Cons m ms)
  from Cons.prems have "map_of (fold (register fp c) ms (register fp c m tools)) k = Some r"
    by simp
  from Cons.IH [OF this] show ?case
    using map_of_register [of fp c m tools k] by (auto split: option.splits)
qed

lemma scan_file_origin:
  "map_of (scan_file f tools) k = Some r \<Longrightarrow>
     map_of tools k = Some r \<or>
     (\<exists>m\<in>set (finditer source_pattern (snd f) 0). map_of (register (fst f) (snd f) m []) k = Some r)"
  unfolding scan_file_def by (rule fold_register_origin)

lemma fold_scan_file_origin:
  "map_of (fold scan_file fs tools) k = Some r \<Longrightarrow>
     map_of tools k = Some r \<or>
     (\<exists>f\<in>set fs. \<exists>m\<in>set (finditer source_pattern (snd f) 0).
        map_of (register (fst f) (snd f) m []) k = Some r)"
proof (induction fs arbitrary: tools)
  case Nil
  then show ?case by simp
next
  case (Cons f fs)
  from Cons.prems have "map_of (fold scan_file fs (scan_file f tools)) k = Some r" by simp
  from Cons.IH [OF this] show ?case
    using scan_file_origin [of f tools k r] by auto
qed

lemma set_tool_files:
  "set (sort_key fst (filter (\<lambda>f. \<not> suffix (str ''.test.ts'') (fst f)) globbed)) =
     {f \<in> set globbed. \<not> suffix (str ''.test.ts'') (fst f)}"
  by auto

lemma extract_origin:
  assumes "map_of (extract_tools_from_source globbed) k = Some r"
  shows "\<exists>f\<in>set globbed. \<not> suffix (str ''.test.ts'') (fst f) \<and>
           (\<exists>m\<in>set (finditer source_pattern (snd f) 0).
              map_of (register (fst f) (snd f) m []) k = Some r)"
proof -
  let ?fs = "sort_key fst (filter (\<lambda>f. \<not> suffix (str ''.test.ts'') (fst f)) globbed)"
  from assms have "map_of (fold scan_file ?fs []) k = Some r"
    by (simp add: extract_tools_from_source_def)
  from fold_scan_file_origin [OF this] obtain f m where
    "f \<in> set ?fs" "m \<in> set (finditer source_pattern (snd f) 0)"
    "map_of (register (fst f) (snd f) m []) k = Some r" by auto
  then show ?thesis by (auto simp del: set_sort set_filter simp add: set_tool_files)
qed

lemma keys_fold_register:
  "fst ` set (fold (register fp c) ms tools) =
     fst ` set tools \<union> {m_group c m 1 |m. m \<in> set ms \<and> prefix namespace (m_group c m 1)}"
  by (induction ms arbitrary: tools) (auto simp: keys_register)

lemma keys_scan_file: "fst ` set (scan_file f tools) = fst ` set tools \<union> registered (snd f)"
  unfolding scan_file_def registered_def by (rule keys_fold_register)

lemma keys_fold_scan_file:
  "fst ` set (fold scan_file fs tools) = fst ` set tools \<union> (\<Union>f\<in>set fs. registered (snd f))"
  by (induction fs arbitrary: tools) (auto simp: keys_scan_file)

lemma keys_extract:
  "fst ` set (extract_tools_from_source globbed) =
     (\<Union>f\<in>{f \<in> set globbed. is_tool_file (fst f)}. registered (snd f))"
  unfolding extract_tools_from_source_def Let_def keys_fold_scan_file set_tool_files
  by (simp add: is_tool_file_def)

section \<open>Evaluation of the samples\<close>

lemmas pattern_defs = source_pattern_def names_pattern_def doc_pattern_def lit_def quotes_def
  dq_def sq_def isspace_def

lemmas script_defs = str_def extract_tools_from_source_def scan_file_def register_def
  m_group_def m_group0_def m_start_def slice_def namespace_def DEPRECATED_def warning_glyph_def
  suffix_to_prefix Let_def extract_tool_names_def list_file_def list_name_def findall1_def
  findall_def slice_to_def py_find_def extract_tools_from_docs_def scan_doc_def dd_append_def
  mentions_def path_name_def audit_def audit_main_def dquoted_def

lemma scenario1_source:
  "extract_tools_from_source [(str ''tools/search.ts'', scenario1_ts)] =
     [(str ''spectree__old_tool'',
       \<lparr>tool_file = str ''tools/search.ts'', deprecated = True,
        description = str ''DEPRECATED: use search''\<rparr>),
      (str ''spectree__search'',
       \<lparr>tool_file = str ''tools/search.ts'', deprecated = False, description = str ''Search''\<rparr>)]"
  by (simp add: scenario1_ts_def script_defs pattern_defs)

lemma scenario1_docs:
  "extract_tools_from_docs [(str ''docs/mcp/tools.md'', scenario1_md)] =
     [(str ''spectree__search'', [str ''tools.md'']),
      (str ''spectree__old_tool'', [str ''tools.md'']),
      (str ''spectree__typo_tool'', [str ''tools.md''])]"
  by (simp add: scenario1_md_def script_defs pattern_defs)

lemma scenario1_audit:
  "audit_main [(str ''tools/search.ts'', scenario1_ts)] [(str ''docs/mcp/tools.md'', scenario1_md)] =
     \<lparr>n_source = 2, n_docs = 3, n_deprecated = 1,
      not_in_source = [str ''spectree__typo_tool''],
      deprecated_in_docs = [str ''spectree__old_tool''],
      not_documented = [], failed = True\<rparr>"
  unfolding audit_main_def scenario1_source scenario1_docs
  by (simp add: audit_def str_def)

lemma scenario2_source:
  "extract_tools_from_source [(str ''tools/ab.ts'', scenario2_ts)] =
     [(str ''spectree__a'',
       \<lparr>tool_file = str ''tools/ab.ts'', deprecated = False, description = str ''A''\<rparr>),
      (str ''spectree__b'',
       \<lparr>tool_file = str ''tools/ab.ts'', deprecated = False, description = str ''B''\<rparr>)]"
  by (simp add: scenario2_ts_def script_defs pattern_defs)

lemma scenario2_docs:
  "extract_tools_from_docs [(str ''docs/mcp/tools.md'', scenario2_md)] =
     [(str ''spectree__a'', [str ''tools.md''])]"
  by (simp add: scenario2_md_def script_defs pattern_defs)

lemma scenario2_audit:
  "audit_main [(str ''tools/ab.ts'', scenario2_ts)] [(str ''docs/mcp/tools.md'', scenario2_md)] =
     \<lparr>n_source = 2, n_docs = 1, n_deprecated = 0,
      not_in_source = [], deprecated_in_docs = [],
      not_documented = [str ''spectree__b''], failed = False\<rparr>"
  unfolding audit_main_def scenario2_source scenario2_docs
  by (simp add: audit_def str_def)

section \<open>The reconciler\<close>

text \<open>
  Claim C1: the audit fails if and only if the list of identifiers that are not in the
  source or the list of deprecated identifiers in the documents is not empty; with both
  empty it passes, whatever the list of undocumented tools holds.
\<close>

theorem audit_fails_iff:
  "(failed (audit S D) \<longleftrightarrow>
      set (not_in_source (audit S D)) \<noteq> {} \<or> set (deprecated_in_docs (audit S D)) \<noteq> {}) \<and>
   (set (not_in_source (audit S D)) = {} \<and> set (deprecated_in_docs (audit S D)) = {}
      \<longrightarrow> \<not> failed (audit S D))"
proof -
  have "failed (audit S D) \<longleftrightarrow>
          not_in_source (audit S D) \<noteq> [] \<or> deprecated_in_docs (audit S D) \<noteq> []"
    by (simp add: audit_def Let_def)
  then show ?thesis by simp
qed

theorem audit_fails_iff_witness:
  "set (not_in_source (audit (extract_tools_from_source [(str ''tools/ab.ts'', scenario2_ts)])
          (extract_tools_from_docs [(str ''docs/mcp/tools.md'', scenario2_md)]))) = {} \<and>
   set (deprecated_in_docs (audit (extract_tools_from_source [(str ''tools/ab.ts'', scenario2_ts)])
          (extract_tools_from_docs [(str ''docs/mcp/tools.md'', scenario2_md)]))) = {} \<and>
   set (not_documented (audit (extract_tools_from_source [(str ''tools/ab.ts'', scenario2_ts)])
          (extract_tools_from_docs [(str ''docs/mcp/tools.md'', scenario2_md)]))) \<noteq> {} \<and>
   \<not> failed (audit (extract_tools_from_source [(str ''tools/ab.ts'', scenario2_ts)])
          (extract_tools_from_docs [(str ''docs/mcp/tools.md'', scenario2_md)]))"
  using audit_fails_iff [of "extract_tools_from_source [(str ''tools/ab.ts'', scenario2_ts)]"
      "extract_tools_from_docs [(str ''docs/mcp/tools.md'', scenario2_md)]"]
    scenario2_audit
  by (simp add: audit_main_def)

text \<open>
  Claim C2: for every source mapping \<open>S\<close> and document mapping \<open>D\<close>, the three lists hold
  exactly the keys of \<open>D\<close> that are not keys of \<open>S\<close>, the keys of both whose record in \<open>S\<close>
  is deprecated, and the keys of \<open>S\<close> that are not keys of \<open>D\<close>; the first is disjoint from
  the keys of \<open>S\<close> and the last from the keys of \<open>D\<close>.
\<close>

theorem reconciler_sets:
  "set (not_in_source (audit S D)) = {k \<in> fst ` set D. k \<notin> fst ` set S} \<and>
   set (deprecated_in_docs (audit S D)) =
     {k \<in> fst ` set D \<inter> fst ` set S. \<exists>t. map_of S k = Some t \<and> deprecated t} \<and>
   set (not_documented (audit S D)) = {k \<in> fst ` set S. k \<notin> fst ` set D} \<and>
   set (not_in_source (audit S D)) \<inter> fst ` set S = {} \<and>
   set (not_documented (audit S D)) \<inter> fst ` set D = {}"
proof -
  have 1: "set (not_in_source (audit S D)) = {k \<in> fst ` set D. k \<notin> fst ` set S}"
    by (auto simp: audit_def Let_def map_of_eq_None_iff)
  have 2: "set (deprecated_in_docs (audit S D)) =
     {k \<in> fst ` set D \<inter> fst ` set S. \<exists>t. map_of S k = Some t \<and> deprecated t}"
    by (auto simp: audit_def Let_def split: option.splits dest: map_of_SomeD
        intro: rev_image_eqI)
  have 3: "set (not_documented (audit S D)) = {k \<in> fst ` set S. k \<notin> fst ` set D}"
    by (auto simp: audit_def Let_def map_of_eq_None_iff)
  from 1 2 3 show ?thesis by blast
qed

theorem reconciler_sets_witness:
  "set (not_in_source (audit (extract_tools_from_source [(str ''tools/search.ts'', scenario1_ts)])
          (extract_tools_from_docs [(str ''docs/mcp/tools.md'', scenario1_md)]))) =
     {str ''spectree__typo_tool''} \<and>
   {k \<in> fst ` set (extract_tools_from_docs [(str ''docs/mcp/tools.md'', scenario1_md)]).
      k \<notin> fst ` set (extract_tools_from_source [(str ''tools/search.ts'', scenario1_ts)])} =
     {str ''spectree__typo_tool''}"
  using reconciler_sets [of "extract_tools_from_source [(str ''tools/search.ts'', scenario1_ts)]"
      "extract_tools_from_docs [(str ''docs/mcp/tools.md'', scenario1_md)]"]
    scenario1_audit
  by (simp add: audit_main_def)

section \<open>The list of names\<close>

lemma list_name_origin:
  "e \<in> set (list_name fp c mt tools) \<Longrightarrow>
     e \<in> set tools \<or>
     (prefix namespace mt \<and>
      e = \<lparr>entry_name = mt, entry_file = fp,
            entry_deprecated = py_in DEPRECATED (slice_to c (py_find c mt))\<rparr>)"
  by (auto simp: list_name_def split: if_splits)

lemma fold_list_name_origin:
  "e \<in> set (fold (list_name fp c) mts tools) \<Longrightarrow>
     e \<in> set tools \<or>
     (\<exists>mt\<in>set mts. prefix namespace mt \<and>
        e = \<lparr>entry_name = mt, entry_file = fp,
              entry_deprecated = py_in DEPRECATED (slice_to c (py_find c mt))\<rparr>)"
proof (induction mts arbitrary: tools)
  case Nil
  then show ?case by simp
next
  case (Cons mt mts)
  from Cons.prems have "e \<in> set (fold (list_name fp c) mts (list_name fp c mt tools))"
    by simp
  from Cons.IH [OF this] show ?case
    using list_name_origin [of e fp c mt tools] by auto
qed

lemma fold_list_file_origin:
  "e \<in> set (fold list_file fs tools) \<Longrightarrow>
     e \<in> set tools \<or>
     (\<exists>f\<in>set fs. \<exists>mt\<in>set (findall1 names_pattern (snd f)). prefix namespace mt \<and>
        e = \<lparr>entry_name = mt, entry_file = fst f,
              entry_deprecated = py_in DEPRECATED (slice_to (snd f) (py_find (snd f) mt))\<rparr>)"
proof (induction fs arbitrary: tools)
  case Nil
  then show ?case by simp
next
  case (Cons f fs)
  from Cons.prems have "e \<in> set (fold list_file fs (list_file f tools))" by simp
  from Cons.IH [OF this] show ?case
    using fold_list_name_origin [of e "fst f" "snd f" "findall1 names_pattern (snd f)" tools]
    by (auto simp: list_file_def)
qed

lemma extract_tool_names_origin:
  assumes "e \<in> set (extract_tool_names globbed)"
  shows "\<exists>f\<in>set globbed. \<exists>mt\<in>set (findall1 names_pattern (snd f)). prefix namespace mt \<and>
        e = \<lparr>entry_name = mt, entry_file = fst f,
              entry_deprecated = py_in DEPRECATED (slice_to (snd f) (py_find (snd f) mt))\<rparr>"
proof -
  let ?fs = "sort_key fst (filter (\<lambda>f. \<not> suffix (str ''.test.ts'') (fst f)) globbed)"
  from assms have "e \<in> set (fold list_file ?fs [])"
    by (simp add: extract_tool_names_def)
  from fold_list_file_origin [OF this] obtain f mt where
    "f \<in> set ?fs" "mt \<in> set (findall1 names_pattern (snd f))" "prefix namespace mt"
    "e = \<lparr>entry_name = mt, entry_file = fst f,
              entry_deprecated = py_in DEPRECATED (slice_to (snd f) (py_find (snd f) mt))\<rparr>"
    by auto
  then show ?thesis by (auto simp del: set_sort set_filter simp add: set_tool_files)
qed

section \<open>The source extractor\<close>

text \<open>
  Claim C8: every key of the mapping that \<open>extract_tools_from_source\<close> returns starts
  with the prefix \<open>spectree__\<close>; a match whose identifier lacks the prefix leaves the
  mapping as it is. The names that \<open>extract-tool-names.py\<close> lists start with the prefix
  too.
\<close>

theorem keys_have_prefix:
  "(\<forall>k\<in>fst ` set (extract_tools_from_source globbed). prefix namespace k) \<and>
   (\<not> prefix namespace (m_group content m 1) \<longrightarrow>
      register file_path content m tools = tools) \<and>
   (\<forall>e\<in>set (extract_tool_names globbed). prefix namespace (entry_name e))"
proof (intro conjI)
  show "\<forall>k\<in>fst ` set (extract_tools_from_source globbed). prefix namespace k"
    unfolding keys_extract by (auto simp: registered_def)
  show "\<not> prefix namespace (m_group content m 1) \<longrightarrow>
      register file_path content m tools = tools"
    by (simp add: register_def)
  show "\<forall>e\<in>set (extract_tool_names globbed). prefix namespace (entry_name e)"
    using extract_tool_names_origin by fastforce
qed


text \<open>
  Claim C4: a record of the mapping comes from a match of its identifier in one of the
  files, and it is deprecated exactly when \<open>DEPRECATED\<close> or the warning glyph occurs
  within the 200 characters that start where the match starts, which is where
  \<open>server.registerTool(\<close> starts.
\<close>

theorem deprecated_window:
  assumes "map_of (extract_tools_from_source globbed) k = Some r"
  shows "\<exists>f\<in>set globbed. \<exists>m\<in>set (finditer source_pattern (snd f) 0).
     m_group (snd f) m 1 = k \<and> tool_file r = fst f \<and>
     prefix (str ''server.registerTool('') (drop (m_start m) (snd f)) \<and>
     (deprecated r \<longleftrightarrow>
        sublist DEPRECATED (take 200 (drop (m_start m) (snd f))) \<or>
        sublist warning_glyph (take 200 (drop (m_start m) (snd f))))"
proof -
  from extract_origin [OF assms] obtain f m where
    f: "f \<in> set globbed" and m: "m \<in> set (finditer source_pattern (snd f) 0)" and
    r: "map_of (register (fst f) (snd f) m []) k = Some r" by blast
  from finditer_start [OF m [unfolded source_pattern_def]] obtain j where
    "fst m = 0 + j" "prefix (str ''server.registerTool('') (drop j (snd f))" by blast
  then have st: "prefix (str ''server.registerTool('') (drop (m_start m) (snd f))"
    by (simp add: m_start_def)
  from r have "m_group (snd f) m 1 = k" "tool_file r = fst f"
    "deprecated r \<longleftrightarrow>
        sublist DEPRECATED (take 200 (drop (m_start m) (snd f))) \<or>
        sublist warning_glyph (take 200 (drop (m_start m) (snd f)))"
    by (auto simp: register_Nil_Some py_in_sublist slice_def)
  with f m st show ?thesis by blast
qed


lemma foreign_matches:
  "finditer source_pattern foreign_ts 0 = [(0, 49, [21, 29, 48, 49]), (58, 110, [79, 90, 109, 110])]"
  by (simp add: foreign_ts_def script_defs pattern_defs)

lemma foreign_source:
  "extract_tools_from_source [(str ''tools/f.ts'', foreign_ts)] =
     [(str ''spectree__y'',
       \<lparr>tool_file = str ''tools/f.ts'', deprecated = False, description = str ''Y''\<rparr>)]"
  by (simp add: foreign_ts_def script_defs pattern_defs)

lemma foreign_names:
  "extract_tool_names [(str ''tools/f.ts'', foreign_ts)] =
     [\<lparr>entry_name = str ''spectree__y'', entry_file = str ''tools/f.ts'',
       entry_deprecated = False\<rparr>]"
  by (simp add: foreign_ts_def script_defs pattern_defs)


lemma glyph_source:
  "extract_tools_from_source [(str ''tools/g.ts'', glyph_ts)] =
     [(str ''spectree__g'',
       \<lparr>tool_file = str ''tools/g.ts'', deprecated = True,
        description = warning_glyph @ str '' use spectree__h''\<rparr>)]"
  by (simp add: glyph_ts_def script_defs pattern_defs)

theorem keys_have_prefix_witness:
  "fst ` set (extract_tools_from_source [(str ''tools/f.ts'', foreign_ts)]) = {str ''spectree__y''} \<and>
   prefix namespace (str ''spectree__y'') \<and>
   (0, 49, [21, 29, 48, 49]) \<in> set (finditer source_pattern foreign_ts 0) \<and>
   \<not> prefix namespace (m_group foreign_ts (0, 49, [21, 29, 48, 49]) 1) \<and>
   register (str ''tools/f.ts'') foreign_ts (0, 49, [21, 29, 48, 49]) [] = [] \<and>
   \<lparr>entry_name = str ''spectree__y'', entry_file = str ''tools/f.ts'',
     entry_deprecated = False\<rparr> \<in> set (extract_tool_names [(str ''tools/f.ts'', foreign_ts)]) \<and>
   prefix namespace (entry_name \<lparr>entry_name = str ''spectree__y'',
     entry_file = str ''tools/f.ts'', entry_deprecated = False\<rparr>)"
proof -
  have k: "fst ` set (extract_tools_from_source [(str ''tools/f.ts'', foreign_ts)]) =
      {str ''spectree__y''}"
    by (simp add: foreign_source)
  have n: "\<not> prefix namespace (m_group foreign_ts (0, 49, [21, 29, 48, 49]) 1)"
    by (simp add: foreign_ts_def script_defs pattern_defs)
  have e: "\<lparr>entry_name = str ''spectree__y'', entry_file = str ''tools/f.ts'',
      entry_deprecated = False\<rparr> \<in> set (extract_tool_names [(str ''tools/f.ts'', foreign_ts)])"
    by (simp add: foreign_names)
  show ?thesis
    using keys_have_prefix [of "[(str ''tools/f.ts'', foreign_ts)]" foreign_ts
        "(0, 49, [21, 29, 48, 49])" "str ''tools/f.ts''" "[]"] k n e
    by (simp add: foreign_matches)
qed


theorem deprecated_window_witness:
  "map_of (extract_tools_from_source [(str ''tools/g.ts'', glyph_ts)]) (str ''spectree__g'') =
     Some \<lparr>tool_file = str ''tools/g.ts'', deprecated = True,
           description = warning_glyph @ str '' use spectree__h''\<rparr> \<and>
   (\<exists>m\<in>set (finditer source_pattern glyph_ts 0).
      m_group glyph_ts m 1 = str ''spectree__g'' \<and>
      prefix (str ''server.registerTool('') (drop (m_start m) glyph_ts) \<and>
      (sublist DEPRECATED (take 200 (drop (m_start m) glyph_ts)) \<or>
       sublist warning_glyph (take 200 (drop (m_start m) glyph_ts))))"
proof -
  have h: "map_of (extract_tools_from_source [(str ''tools/g.ts'', glyph_ts)])
      (str ''spectree__g'') =
     Some \<lparr>tool_file = str ''tools/g.ts'', deprecated = True,
           description = warning_glyph @ str '' use spectree__h''\<rparr>"
    by (simp add: glyph_source)
  from deprecated_window [OF h] h show ?thesis by simp
qed

text \<open>
  Claim C10: an identifier opened with a double quote and closed with a single quote,
  before a description opened with a single quote, is extracted by both scripts.
\<close>

theorem mismatched_quotes_accepted:
  "extract_tools_from_source [(str ''tools/x.ts'', mixed_ts)] =
     [(str ''spectree__x'',
       \<lparr>tool_file = str ''tools/x.ts'', deprecated = False, description = str ''d''\<rparr>)] \<and>
   extract_tool_names [(str ''tools/x.ts'', mixed_ts)] =
     [\<lparr>entry_name = str ''spectree__x'', entry_file = str ''tools/x.ts'',
       entry_deprecated = False\<rparr>]"
  by (simp add: mixed_ts_def script_defs pattern_defs)

lemma py_find_first_at:
  assumes "prefix w (drop k s)"
  shows "\<exists>j. py_find s w = int j \<and> first_at j w s"
proof (cases "k \<le> length s")
  case True
  with assms show ?thesis by (rule py_find_found)
next
  case False
  with assms have "w = []" by simp
  then have "prefix w (drop (length s) s)" by simp
  then show ?thesis by (rule py_find_found) simp
qed

lemma m_group_occurs: "\<exists>a. prefix (m_group c m n) (drop a c)"
proof (cases "drop (2 * (n - 1)) (snd (snd m))")
  case Nil
  then show ?thesis by (simp add: m_group_def)
next
  case (Cons a as)
  show ?thesis
  proof (cases as)
    case Nil
    with Cons show ?thesis by (simp add: m_group_def)
  next
    case (Cons b bs)
    with \<open>drop (2 * (n - 1)) (snd (snd m)) = a # as\<close>
    have "m_group c m n = take (b - a) (drop a c)" by (simp add: m_group_def slice_def)
    then show ?thesis using take_is_prefix by metis
  qed
qed

text \<open>
  Claim C5: an entry of the list that \<open>extract-tool-names.py\<close> builds is deprecated
  exactly when \<open>DEPRECATED\<close> occurs in the text of its file before the first place where
  the name of the tool occurs; no window after the match is involved.
\<close>

theorem listed_deprecated:
  assumes "e \<in> set (extract_tool_names globbed)"
  shows "\<exists>f\<in>set globbed. entry_file e = fst f \<and>
     (\<exists>j. first_at j (entry_name e) (snd f) \<and>
          (entry_deprecated e \<longleftrightarrow> sublist DEPRECATED (take j (snd f))))"
proof -
  from extract_tool_names_origin [OF assms] obtain f mt where
    f: "f \<in> set globbed" and mt: "mt \<in> set (findall1 names_pattern (snd f))" and
    e: "e = \<lparr>entry_name = mt, entry_file = fst f,
              entry_deprecated = py_in DEPRECATED (slice_to (snd f) (py_find (snd f) mt))\<rparr>"
    by blast
  from mt obtain m where "mt = m_group (snd f) m 1" by (auto simp: findall1_def)
  then obtain a where "prefix mt (drop a (snd f))"
    using m_group_occurs [of "snd f" m 1] by blast
  from py_find_first_at [OF this] obtain j where
    j: "py_find (snd f) mt = int j" "first_at j mt (snd f)" by blast
  have "entry_deprecated e \<longleftrightarrow> sublist DEPRECATED (take j (snd f))"
    using e j(1) by (simp add: slice_to_def py_in_sublist)
  with f e j(2) show ?thesis by auto
qed

lemma listed_names:
  "extract_tool_names [(str ''tools/n.ts'', listed_ts)] =
     [\<lparr>entry_name = str ''spectree__n'', entry_file = str ''tools/n.ts'',
       entry_deprecated = True\<rparr>]"
  by (simp add: listed_ts_def script_defs pattern_defs)

lemma listed_source:
  "extract_tools_from_source [(str ''tools/n.ts'', listed_ts)] =
     [(str ''spectree__n'',
       \<lparr>tool_file = str ''tools/n.ts'', deprecated = False, description = str ''N''\<rparr>)]"
  by (simp add: listed_ts_def script_defs pattern_defs)

theorem listed_deprecated_witness:
  "\<lparr>entry_name = str ''spectree__n'', entry_file = str ''tools/n.ts'', entry_deprecated = True\<rparr>
     \<in> set (extract_tool_names [(str ''tools/n.ts'', listed_ts)]) \<and>
   (\<exists>j. first_at j (str ''spectree__n'') listed_ts \<and> sublist DEPRECATED (take j listed_ts))"
proof -
  have h: "\<lparr>entry_name = str ''spectree__n'', entry_file = str ''tools/n.ts'',
      entry_deprecated = True\<rparr> \<in> set (extract_tool_names [(str ''tools/n.ts'', listed_ts)])"
    by (simp add: listed_names)
  from listed_deprecated [OF h] h show ?thesis by simp
qed

section \<open>Duplicate registrations\<close>

lemma scan_file_registers: "map_of (scan_file f []) k \<noteq> None \<longleftrightarrow> k \<in> registered (snd f)"
  using keys_scan_file [of f "[]"] by (simp add: map_of_eq_None_iff)

lemma fold_scan_file_untouched:
  "\<forall>g\<in>set fs. k \<notin> registered (snd g) \<Longrightarrow>
     map_of (fold scan_file fs tools) k = map_of tools k"
proof (induction fs arbitrary: tools)
  case Nil
  then show ?case by simp
next
  case (Cons g fs)
  then have "map_of (scan_file g []) k = None"
    using scan_file_registers [of g k] by auto
  then have "map_of (scan_file g tools) k = map_of tools k"
    using map_of_scan_file [of g tools k] by simp
  with Cons show ?case by simp
qed

lemma extract_single:
  "is_tool_file (fst f) \<Longrightarrow> extract_tools_from_source [f] = scan_file f []"
  by (simp add: extract_tools_from_source_def is_tool_file_def)

lemma sorted_tail_above:
  assumes "sorted (map fst (A @ f # B))" "distinct (map fst (A @ f # B))" "g \<in> set B"
  shows "fst f < fst g"
proof -
  from assms(1,3) have "fst f \<le> fst g" by (auto simp: sorted_append)
  moreover from assms(2,3) have "fst f \<noteq> fst g" by auto
  ultimately show ?thesis by simp
qed

text \<open>
  Claim C6: the paths that \<open>glob\<close> returns are distinct. When a file registers an
  identifier and no file with a greater path does, the mapping holds for the identifier
  the record that this file alone gives, with the path of this file.
\<close>

theorem later_file_wins:
  assumes "distinct (map fst globbed)"
    and "f \<in> set globbed" and "is_tool_file (fst f)" and "k \<in> registered (snd f)"
    and "\<forall>g\<in>set globbed. is_tool_file (fst g) \<and> k \<in> registered (snd g) \<longrightarrow> fst g \<le> fst f"
  shows "\<exists>r. map_of (extract_tools_from_source globbed) k = Some r \<and>
           map_of (extract_tools_from_source [f]) k = Some r \<and> tool_file r = fst f"
proof -
  let ?fs = "sort_key fst (filter (\<lambda>f. \<not> suffix (str ''.test.ts'') (fst f)) globbed)"
  have mem: "f \<in> set ?fs"
    using assms(2,3) by (simp add: is_tool_file_def)
  obtain A B where split: "?fs = A @ f # B"
    using split_list [OF mem] by blast
  have srt: "sorted (map fst ?fs)" by (rule sorted_sort_key)
  have dst: "distinct (map fst ?fs)"
  proof -
    from assms(1) have "distinct globbed" "inj_on fst (set globbed)"
      by (simp_all add: distinct_map)
    then have "distinct ?fs" "inj_on fst (set ?fs)"
      by (auto intro: inj_on_subset)
    then show ?thesis by (simp only: distinct_map)
  qed
  have above: "\<forall>g\<in>set B. k \<notin> registered (snd g)"
  proof
    fix g assume g: "g \<in> set B"
    then have lt: "fst f < fst g"
      using sorted_tail_above [of A f B g] srt dst unfolding split by simp
    from g have "g \<in> set ?fs" unfolding split by simp
    then have "g \<in> set globbed" "is_tool_file (fst g)" by (auto simp: is_tool_file_def)
    with assms(5) lt show "k \<notin> registered (snd g)" by auto
  qed
  from assms(4) obtain r where r: "map_of (scan_file f []) k = Some r"
    using scan_file_registers [of f k] by auto
  have "map_of (extract_tools_from_source globbed) k =
        map_of (fold scan_file B (scan_file f (fold scan_file A []))) k"
    by (simp add: extract_tools_from_source_def split)
  also have "\<dots> = map_of (scan_file f (fold scan_file A [])) k"
    using above by (rule fold_scan_file_untouched)
  also have "\<dots> = Some r"
    using map_of_scan_file [of f "fold scan_file A []" k] r by simp
  finally have 1: "map_of (extract_tools_from_source globbed) k = Some r" .
  have 2: "map_of (extract_tools_from_source [f]) k = Some r"
    using r assms(3) by (simp add: extract_single)
  from scan_file_origin [OF r] have 3: "tool_file r = fst f"
    by (auto simp: register_Nil_Some)
  from 1 2 3 show ?thesis by blast
qed

lemma registered_list:
  "registered content =
     set (filter (prefix namespace) (map (\<lambda>m. m_group content m 1)
       (finditer source_pattern content 0)))"
  by (auto simp: registered_def)

lemma dup_b_source:
  "extract_tools_from_source [(str ''tools/b.ts'', dup_b_ts)] =
     [(str ''spectree__dup'',
       \<lparr>tool_file = str ''tools/b.ts'', deprecated = False, description = str ''second''\<rparr>)]"
  by (simp add: dup_b_ts_def script_defs pattern_defs)

lemma dup_a_source:
  "extract_tools_from_source [(str ''tools/a.ts'', dup_a_ts)] =
     [(str ''spectree__dup'',
       \<lparr>tool_file = str ''tools/a.ts'', deprecated = True,
        description = str ''DEPRECATED: first''\<rparr>)]"
  by (simp add: dup_a_ts_def script_defs pattern_defs)

lemma dup_b_registered: "str ''spectree__dup'' \<in> registered dup_b_ts"
  by (simp add: registered_list dup_b_ts_def script_defs pattern_defs)

theorem later_file_wins_witness:
  "map_of (extract_tools_from_source
       [(str ''tools/b.ts'', dup_b_ts), (str ''tools/a.ts'', dup_a_ts)]) (str ''spectree__dup'') =
     Some \<lparr>tool_file = str ''tools/b.ts'', deprecated = False, description = str ''second''\<rparr> \<and>
   map_of (extract_tools_from_source [(str ''tools/a.ts'', dup_a_ts)]) (str ''spectree__dup'') =
     Some \<lparr>tool_file = str ''tools/a.ts'', deprecated = True,
           description = str ''DEPRECATED: first''\<rparr> \<and>
   str ''tools/a.ts'' < str ''tools/b.ts''"
proof -
  let ?G = "[(str ''tools/b.ts'', dup_b_ts), (str ''tools/a.ts'', dup_a_ts)]"
  have h1: "distinct (map fst ?G)" by (simp add: str_def)
  have h2: "(str ''tools/b.ts'', dup_b_ts) \<in> set ?G" by simp
  have h3: "is_tool_file (fst (str ''tools/b.ts'', dup_b_ts))"
    by (simp add: is_tool_file_def str_def suffix_to_prefix)
  have h4: "str ''spectree__dup'' \<in> registered (snd (str ''tools/b.ts'', dup_b_ts))"
    by (simp add: dup_b_registered)
  have h5: "\<forall>g\<in>set ?G. is_tool_file (fst g) \<and> str ''spectree__dup'' \<in> registered (snd g)
      \<longrightarrow> fst g \<le> fst (str ''tools/b.ts'', dup_b_ts)"
    by (simp add: str_def)
  have lt: "str ''tools/a.ts'' < str ''tools/b.ts''" by (simp add: str_def)
  from later_file_wins [OF h1 h2 h3 h4 h5] lt show ?thesis
    by (simp add: dup_b_source dup_a_source)
qed

section \<open>The document extractor\<close>

lemma mentions_dd_append:
  "mentions (dd_append l k dm) k' = (if k' = k then mentions dm k @ [l] else mentions dm k')"
  by (simp add: mentions_def dd_append_def update_conv')

lemma mentions_fold_dd_append:
  "distinct ks \<Longrightarrow>
     mentions (fold (dd_append l) ks dm) k =
       (if k \<in> set ks then mentions dm k @ [l] else mentions dm k)"
proof (induction ks arbitrary: dm)
  case Nil
  then show ?case by simp
next
  case (Cons a ks)
  then show ?case by (auto simp: mentions_dd_append)
qed

lemma mentions_scan_doc:
  "mentions (scan_doc d dm) k =
     (if k \<in> set (findall doc_pattern (snd d)) then mentions dm k @ [path_name (fst d)]
      else mentions dm k)"
  using mentions_fold_dd_append [of "remdups (findall doc_pattern (snd d))" "path_name (fst d)" dm k]
  by (simp add: scan_doc_def)

lemma mentions_fold_scan_doc:
  "mentions (fold scan_doc ds dm) k =
     mentions dm k @
     map (\<lambda>d. path_name (fst d)) (filter (\<lambda>d. k \<in> set (findall doc_pattern (snd d))) ds)"
  by (induction ds arbitrary: dm) (simp_all add: mentions_scan_doc)

lemma mentions_extract:
  "mentions (extract_tools_from_docs doc_files) k =
     map (\<lambda>d. path_name (fst d))
       (filter (\<lambda>d. k \<in> set (findall doc_pattern (snd d))) (sort_key fst doc_files))"
proof -
  have "mentions [] k = []" by (simp add: mentions_def)
  then show ?thesis
    unfolding extract_tools_from_docs_def mentions_fold_scan_doc by simp
qed

lemma path_name_flat: "47 \<notin> set n \<Longrightarrow> path_name (str ''docs/mcp/'' @ n) = n"
proof -
  assume n: "47 \<notin> set n"
  have "rev (str ''docs/mcp/'' @ n) = rev n @ 47 # rev (str ''docs/mcp'')"
    by (simp add: str_def)
  moreover have "takeWhile (\<lambda>c. c \<noteq> 47) (rev n @ 47 # rev (str ''docs/mcp'')) = rev n"
    using n by (auto simp: takeWhile_tail)
  ultimately show ?thesis by (simp add: path_name_def)
qed

lemma count_list_distinct: "distinct xs \<Longrightarrow> x \<in> set xs \<Longrightarrow> count_list xs x = 1"
  by (induction xs) (auto simp: count_list_0_iff)

text \<open>
  Claim C9: the documents come from the flat pattern \<open>docs/mcp/*.md\<close>, so their paths
  are distinct and have no further separator. For a document and an identifier that
  its text mentions, however often, the list of the identifier holds the name of the
  document exactly once.
\<close>

theorem label_once:
  assumes "distinct (map fst doc_files)"
    and "\<forall>d\<in>set doc_files. \<exists>n. fst d = str ''docs/mcp/'' @ n \<and> 47 \<notin> set n"
    and "d \<in> set doc_files" and "k \<in> set (findall doc_pattern (snd d))"
  shows "count_list (mentions (extract_tools_from_docs doc_files) k) (path_name (fst d)) = 1"
proof -
  let ?label = "\<lambda>d. path_name (fst d)"
  let ?ds = "filter (\<lambda>d. k \<in> set (findall doc_pattern (snd d))) (sort_key fst doc_files)"
  have inj: "inj_on ?label (set doc_files)"
  proof (rule inj_onI)
    fix a b assume a: "a \<in> set doc_files" and b: "b \<in> set doc_files"
      and eq: "path_name (fst a) = path_name (fst b)"
    from a assms(2) obtain n where n: "fst a = str ''docs/mcp/'' @ n" "47 \<notin> set n" by blast
    from b assms(2) obtain n' where n': "fst b = str ''docs/mcp/'' @ n'" "47 \<notin> set n'" by blast
    from eq n n' have "n = n'" by (simp add: path_name_flat)
    with n n' have "fst a = fst b" by simp
    with assms(1) a b show "a = b" by (auto simp: distinct_map dest: inj_onD)
  qed
  from assms(1) have "distinct doc_files" by (simp add: distinct_map)
  then have "distinct ?ds" by simp
  moreover have "inj_on ?label (set ?ds)" using inj by (auto intro: inj_on_subset)
  ultimately have "distinct (map ?label ?ds)" by (simp only: distinct_map)
  moreover have "path_name (fst d) \<in> set (map ?label ?ds)"
    using assms(3,4) by auto
  ultimately show ?thesis
    unfolding mentions_extract by (rule count_list_distinct)
qed

lemma thrice_findall:
  "findall doc_pattern thrice_md = [str ''spectree__foo'', str ''spectree__foo'', str ''spectree__foo'']"
  by (simp add: thrice_md_def script_defs pattern_defs)

lemma thrice_docs:
  "extract_tools_from_docs [(str ''docs/mcp/guide.md'', thrice_md)] =
     [(str ''spectree__foo'', [str ''guide.md''])]"
  by (simp add: thrice_md_def script_defs pattern_defs)

theorem label_once_witness:
  "count_list (findall doc_pattern thrice_md) (str ''spectree__foo'') = 3 \<and>
   mentions (extract_tools_from_docs [(str ''docs/mcp/guide.md'', thrice_md)])
     (str ''spectree__foo'') = [str ''guide.md''] \<and>
   count_list (mentions (extract_tools_from_docs [(str ''docs/mcp/guide.md'', thrice_md)])
     (str ''spectree__foo'')) (path_name (fst (str ''docs/mcp/guide.md'', thrice_md))) = 1"
proof -
  let ?D = "[(str ''docs/mcp/guide.md'', thrice_md)]"
  have h1: "distinct (map fst ?D)" by simp
  have "fst (str ''docs/mcp/guide.md'', thrice_md) = str ''docs/mcp/'' @ str ''guide.md'' \<and>
      47 \<notin> set (str ''guide.md'')"
    by (simp add: str_def)
  then have h2: "\<forall>d\<in>set ?D. \<exists>n. fst d = str ''docs/mcp/'' @ n \<and> 47 \<notin> set n"
    by (metis empty_iff empty_set set_ConsD)
  have h3: "(str ''docs/mcp/guide.md'', thrice_md) \<in> set ?D" by simp
  have h4: "str ''spectree__foo'' \<in> set (findall doc_pattern (snd (str ''docs/mcp/guide.md'', thrice_md)))"
    by (simp add: thrice_findall)
  have c: "count_list (findall doc_pattern thrice_md) (str ''spectree__foo'') = 3"
    by (simp add: thrice_findall)
  from label_once [OF h1 h2 h3 h4] c show ?thesis
    by (simp add: thrice_docs mentions_def)
qed

section \<open>Recognition of a registration\<close>

lemma space_not_quote: "isspace x \<Longrightarrow> \<not> in_ranges x quotes"
  by (auto simp: isspace_def quotes_def dq_def sq_def)

lemma quote_not_space: "in_ranges q quotes \<Longrightarrow> \<not> isspace q"
  using space_not_quote by blast

lemma rmatch_spaces_quote:
  assumes "\<forall>x\<in>set ws. isspace x" and "in_ranges q quotes"
  shows "rmatch (Star Space # One (InSet quotes) # p) (ws @ q # t) i =
         rmatch p t (Suc (i + length ws))"
proof -
  have "rmatch (Star Space # One (InSet quotes) # p) (ws @ q # t) i =
        rmatch (One (InSet quotes) # p) (q # t) (i + length ws)"
    using assms by (intro rmatch_Star_skip) (auto simp: space_not_quote)
  then show ?thesis using assms(2) by simp
qed

lemma rmatch_group_quote:
  assumes "w \<noteq> []" and "\<forall>x\<in>set w. \<not> in_ranges x quotes" and "in_ranges q quotes"
  shows "rmatch (Mark # Plus (NotInSet quotes) # Mark # One (InSet quotes) # p) (w @ q # t) i =
         map_option (\<lambda>(e, ms). (e, i # (i + length w) # ms)) (rmatch p t (Suc (i + length w)))"
proof -
  have "rmatch (Plus (NotInSet quotes) # Mark # One (InSet quotes) # p) (w @ q # t) i =
        rmatch (Mark # One (InSet quotes) # p) (q # t) (i + length w)"
    using assms by (intro rmatch_Plus_skip) auto
  then show ?thesis
    using assms(3) by (simp add: option.map_comp comp_def split_def)
qed

lemma rmatch_head:
  assumes "\<forall>x\<in>set ws. isspace x" and "in_ranges q1 quotes" and "in_ranges q2 quotes"
    and "w \<noteq> []" and "\<forall>x\<in>set w. \<not> in_ranges x quotes"
  shows "rmatch (lit ''server.registerTool('' @
            [Star Space, One (InSet quotes), Mark, Plus (NotInSet quotes), Mark,
             One (InSet quotes)] @ p)
           (str ''server.registerTool('' @ ws @ q1 # w @ q2 # t) i =
         map_option (\<lambda>(e, ms). (e, (i + 21 + length ws) # (i + 21 + length ws + length w) # ms))
           (rmatch p t (i + 22 + length ws + length w))"
proof -
  have "rmatch (lit ''server.registerTool('' @
            [Star Space, One (InSet quotes), Mark, Plus (NotInSet quotes), Mark,
             One (InSet quotes)] @ p)
           (str ''server.registerTool('' @ ws @ q1 # w @ q2 # t) i =
        rmatch (Star Space # One (InSet quotes) # Mark # Plus (NotInSet quotes) # Mark #
             One (InSet quotes) # p) (ws @ q1 # w @ q2 # t) (i + 20)"
  proof -
    have len: "length ''server.registerTool('' = 20" by simp
    have pat: "[Star Space, One (InSet quotes), Mark, Plus (NotInSet quotes), Mark,
             One (InSet quotes)] @ p =
        Star Space # One (InSet quotes) # Mark # Plus (NotInSet quotes) # Mark #
             One (InSet quotes) # p" by simp
    show ?thesis
      using rmatch_lit_app [of "''server.registerTool(''"
          "[Star Space, One (InSet quotes), Mark, Plus (NotInSet quotes), Mark,
             One (InSet quotes)] @ p" "ws @ q1 # w @ q2 # t" i]
      unfolding len pat .
  qed
  also have "\<dots> = rmatch (Mark # Plus (NotInSet quotes) # Mark # One (InSet quotes) # p)
      (w @ q2 # t) (Suc (i + 20 + length ws))"
    using assms(1,2) by (rule rmatch_spaces_quote)
  also have "\<dots> = map_option
      (\<lambda>(e, ms). (e, Suc (i + 20 + length ws) # (Suc (i + 20 + length ws) + length w) # ms))
      (rmatch p t (Suc (Suc (i + 20 + length ws) + length w)))"
    using assms(4,5,3) by (rule rmatch_group_quote)
  finally have R: "rmatch (lit ''server.registerTool('' @
            [Star Space, One (InSet quotes), Mark, Plus (NotInSet quotes), Mark,
             One (InSet quotes)] @ p)
           (str ''server.registerTool('' @ ws @ q1 # w @ q2 # t) i =
      map_option
        (\<lambda>(e, ms). (e, Suc (i + 20 + length ws) # (Suc (i + 20 + length ws) + length w) # ms))
        (rmatch p t (Suc (Suc (i + 20 + length ws) + length w)))" .
  have a: "Suc (i + 20 + length ws) = i + 21 + length ws" by simp
  have c: "Suc (i + 21 + length ws + length w) = i + 22 + length ws + length w" by simp
  show ?thesis unfolding R a c ..
qed

lemma rmatch_options:
  assumes "\<forall>x\<in>set ws2. isspace x" and "125 \<notin> set mid"
    and "\<forall>x\<in>set ws3. isspace x" and "in_ranges q3 quotes"
    and "desc \<noteq> []" and "\<not> in_ranges (hd desc) quotes"
  shows "rmatch (lit '','' @ [Star Space] @ lit ''{'' @ [Lazy (NotInSet [(125, 125)])] @
            lit ''description:'' @
            [Star Space, One (InSet quotes), Mark, Plus (NotInSet quotes), Mark])
           (str '','' @ ws2 @ str ''{'' @ mid @ str ''description:'' @ ws3 @ q3 # desc @ rest) j
         \<noteq> None"
proof -
  from assms(5) obtain d ds where desc: "desc = d # ds" by (cases desc) auto
  have last: "rmatch [Star Space, One (InSet quotes), Mark, Plus (NotInSet quotes), Mark]
      (ws3 @ q3 # desc @ rest) n \<noteq> None" for n
  proof -
    have "rmatch (Star (NotInSet quotes) # [Mark]) (ds @ rest) n' \<noteq> None" for n'
      by (rule rmatch_Star_total) simp
    then have "rmatch [Mark, Plus (NotInSet quotes), Mark] (desc @ rest) n' \<noteq> None" for n'
      using assms(6) desc by simp
    then show ?thesis
      using rmatch_spaces_quote [OF assms(3,4), of "[Mark, Plus (NotInSet quotes), Mark]"
          "desc @ rest" n] by simp
  qed
  have descr: "rmatch (lit ''description:'' @
      [Star Space, One (InSet quotes), Mark, Plus (NotInSet quotes), Mark])
      (str ''description:'' @ ws3 @ q3 # desc @ rest) n \<noteq> None" for n
    using last by (simp add: rmatch_lit_app)
  have lazy: "rmatch (Lazy (NotInSet [(125, 125)]) # lit ''description:'' @
      [Star Space, One (InSet quotes), Mark, Plus (NotInSet quotes), Mark])
      (mid @ str ''description:'' @ ws3 @ q3 # desc @ rest) n \<noteq> None" for n
    using assms(2) descr by (intro rmatch_Lazy_reach) auto
  have brace: "rmatch (Star Space # lit ''{'' @ Lazy (NotInSet [(125, 125)]) #
      lit ''description:'' @
      [Star Space, One (InSet quotes), Mark, Plus (NotInSet quotes), Mark])
      (ws2 @ str ''{'' @ mid @ str ''description:'' @ ws3 @ q3 # desc @ rest) n \<noteq> None" for n
  proof -
    have "rmatch (Star Space # lit ''{'' @ Lazy (NotInSet [(125, 125)]) #
      lit ''description:'' @
      [Star Space, One (InSet quotes), Mark, Plus (NotInSet quotes), Mark])
      (ws2 @ str ''{'' @ mid @ str ''description:'' @ ws3 @ q3 # desc @ rest) n =
      rmatch (lit ''{'' @ Lazy (NotInSet [(125, 125)]) #
      lit ''description:'' @
      [Star Space, One (InSet quotes), Mark, Plus (NotInSet quotes), Mark])
      (str ''{'' @ mid @ str ''description:'' @ ws3 @ q3 # desc @ rest) (n + length ws2)"
      using assms(1)
      by (intro rmatch_Star_skip) (auto simp: lit_Cons str_Cons isspace_def)
    then show ?thesis using lazy by (simp add: rmatch_lit_app)
  qed
  show ?thesis
    using brace rmatch_lit_app [of "'',''"] by simp
qed


lemma in_quotes: "in_ranges q quotes \<longleftrightarrow> q = dq \<or> q = sq"
  by (auto simp: quotes_def)

lemma slice_middle: "slice (xs @ ys @ zs) (length xs) (length xs + length ys) = ys"
  by (simp add: slice_def)

text \<open>
  Claim C3, as the code has it: at a place of a file that no earlier match of the scan
  runs past, \<open>server.registerTool(\<close> starts a registration made of optional white
  space, a quoted identifier with the prefix, a comma, optional white space, an opening
  brace, any text without a closing brace (of any length; white space, newlines and
  opening braces included), \<open>description:\<close>, optional white space, and a quoted,
  non-empty description. Then the mapping has a record for the identifier.
\<close>

theorem registration_recognised:
  assumes "content = pre @ str ''server.registerTool('' @ ws1 @ [q1] @ ident @ [q2] @
      str '','' @ ws2 @ str ''{'' @ mid @ str ''description:'' @ ws3 @ [q3] @ desc @ rest"
    and "\<forall>m\<in>set (finditer source_pattern content 0).
           m_start m < length pre \<longrightarrow> m_end m \<le> length pre"
    and "\<forall>x\<in>set ws1 \<union> set ws2 \<union> set ws3. isspace x"
    and "{q1, q2, q3} \<subseteq> {dq, sq}"
    and "ident \<noteq> []" and "dq \<notin> set ident" and "sq \<notin> set ident"
    and "prefix namespace ident"
    and "125 \<notin> set mid"
    and "desc \<noteq> []" and "dq \<notin> set desc" and "sq \<notin> set desc"
    and "(file_path, content) \<in> set globbed" and "is_tool_file file_path"
  shows "\<exists>r. map_of (extract_tools_from_source globbed) ident = Some r"
proof -
  let ?M = "''server.registerTool(''"
  let ?P = "lit '','' @ [Star Space] @ lit ''{'' @ [Lazy (NotInSet [(125, 125)])] @
            lit ''description:'' @
            [Star Space, One (InSet quotes), Mark, Plus (NotInSet quotes), Mark]"
  let ?t = "str '','' @ ws2 @ str ''{'' @ mid @ str ''description:'' @ ws3 @ q3 # desc @ rest"
  let ?s = "str ?M @ ws1 @ q1 # ident @ q2 # ?t"
  let ?a = "length pre + 21 + length ws1"
  have content: "content = pre @ ?s" using assms(1) by simp
  have q: "in_ranges q1 quotes" "in_ranges q2 quotes" "in_ranges q3 quotes"
    using assms(4) by (auto simp: in_quotes)
  have idq: "\<forall>x\<in>set ident. \<not> in_ranges x quotes"
    using assms(6,7) by (auto simp: in_quotes)
  have "hd desc \<in> set desc" using assms(10) by simp
  then have dq3: "\<not> in_ranges (hd desc) quotes"
    using assms(11,12) by (auto simp: in_quotes)
  have tail: "rmatch ?P ?t (length pre + 22 + length ws1 + length ident) \<noteq> None"
    using assms(3,9,10) q(3) dq3 by (intro rmatch_options) auto
  have "rmatch source_pattern ?s (length pre) =
      map_option (\<lambda>(e, ms). (e, ?a # (?a + length ident) # ms))
        (rmatch ?P ?t (length pre + 22 + length ws1 + length ident))"
    unfolding source_pattern_def
    using assms(3,5) q(1,2) idq by (intro rmatch_head) auto
  with tail obtain e ms where
    m: "rmatch source_pattern ?s (length pre) = Some (e, ?a # (?a + length ident) # ms)"
    by auto
  have mem: "(length pre, e, ?a # (?a + length ident) # ms) \<in>
      set (finditer source_pattern content 0)"
  proof (rule finditer_reaches)
    show "rmatch source_pattern (drop (length pre - 0) content) (length pre) =
        Some (e, ?a # (?a + length ident) # ms)"
      using m unfolding content by simp
    show "0 \<le> length pre" by simp
    show "length pre \<le> 0 + length content" unfolding content by simp
    show "\<forall>m\<in>set (finditer source_pattern content 0).
        fst m < length pre \<longrightarrow> fst (snd m) \<le> length pre"
      using assms(2) by (simp add: m_start_def m_end_def)
  qed
  have c2: "content = (pre @ str ?M @ ws1 @ [q1]) @ ident @ (q2 # ?t)"
    unfolding content by simp
  have len: "length (pre @ str ?M @ ws1 @ [q1]) = ?a" by simp
  have "slice content ?a (?a + length ident) = ident"
    using slice_middle [of "pre @ str ?M @ ws1 @ [q1]" ident "q2 # ?t"]
    unfolding len c2 [symmetric] .
  then have "m_group content (length pre, e, ?a # (?a + length ident) # ms) 1 = ident"
    by (simp add: m_group_def)
  with mem assms(8) have "ident \<in> registered content"
    unfolding registered_def by force
  with assms(13,14) have "ident \<in> fst ` set (extract_tools_from_source globbed)"
    unfolding keys_extract by force
  then show ?thesis by (metis map_of_eq_None_iff not_None_eq)
qed

lemma spread_matches:
  "finditer source_pattern spread_ts 0 =
     [(0, 52, [21, 32, 51, 52]), (61, 129, [85, 96, 128, 129])]"
  by (simp add: spread_ts_def script_defs pattern_defs)

theorem registration_recognised_witness:
  "(\<exists>r. map_of (extract_tools_from_source [(str ''tools/s.ts'', spread_ts)])
          (str ''spectree__s'') = Some r) \<and>
   finditer source_pattern spread_ts 0 =
     [(0, 52, [21, 32, 51, 52]), (61, 129, [85, 96, 128, 129])] \<and>
   spread_ts =
     (str ''server.registerTool('' @ dquoted ''spectree__r'' @ str '', { description: '' @
        dquoted ''R'' @ str '' }, r);'' @ [10]) @
     str ''server.registerTool('' @ [10, 32, 32] @ [dq] @
      str ''spectree__s'' @ [dq] @ str '','' @ [10, 32, 32] @ str ''{'' @ str '' title: ${ '' @
      str ''description:'' @ [10, 9] @ [dq] @ str ''S'' @ ([dq] @ str '' }, s);'')"
proof -
  let ?pre = "str ''server.registerTool('' @ dquoted ''spectree__r'' @
      str '', { description: '' @ dquoted ''R'' @ str '' }, r);'' @ [10]"
  have h1: "spread_ts = ?pre @ str ''server.registerTool('' @ [10, 32, 32] @ [dq] @
      str ''spectree__s'' @ [dq] @ str '','' @ [10, 32, 32] @ str ''{'' @ str '' title: ${ '' @
      str ''description:'' @ [10, 9] @ [dq] @ str ''S'' @ ([dq] @ str '' }, s);'')"
    by (simp add: spread_ts_def str_def dquoted_def)
  have len: "length ?pre = 61" by (simp add: str_def dquoted_def)
  have h2: "\<forall>m\<in>set (finditer source_pattern spread_ts 0).
      m_start m < length ?pre \<longrightarrow> m_end m \<le> length ?pre"
    unfolding len by (simp add: spread_matches m_start_def m_end_def)
  have h3: "\<forall>x\<in>set [10, 32, 32] \<union> set [10, 32, 32] \<union> set [10, 9]. isspace x"
    by (simp add: isspace_def)
  have h4: "{dq, dq, dq} \<subseteq> {dq, sq}" by simp
  have h5: "str ''spectree__s'' \<noteq> []" "dq \<notin> set (str ''spectree__s'')"
    "sq \<notin> set (str ''spectree__s'')" "prefix namespace (str ''spectree__s'')"
    by (simp_all add: str_def dq_def sq_def namespace_def)
  have h6: "125 \<notin> set (str '' title: ${ '')" by (simp add: str_def)
  have h7: "str ''S'' \<noteq> []" "dq \<notin> set (str ''S'')" "sq \<notin> set (str ''S'')"
    by (simp_all add: str_def dq_def sq_def)
  have h8: "(str ''tools/s.ts'', spread_ts) \<in> set [(str ''tools/s.ts'', spread_ts)]" by simp
  have h9: "is_tool_file (str ''tools/s.ts'')"
    by (simp add: is_tool_file_def str_def suffix_to_prefix)
  from registration_recognised [OF h1 h2 h3 h4 h5 h6 h7 h8 h9] h1 spread_matches
  show ?thesis by blast
qed

text \<open>
  The claim as it is worded fails in two ways. A closed pair of braces between the
  opening brace and \<open>description:\<close> stops the match, since \<open>[^}]*?\<close> does not cross a
  closing brace: the registration of \<open>nested_ts\<close> gives no record. And a registration
  that starts inside the text that an earlier match covers is not seen, since the
  matches do not overlap: \<open>inner_ts\<close> gives no record for \<open>spectree__b\<close>.
\<close>

theorem registration_missed:
  "extract_tools_from_source [(str ''tools/x.ts'', nested_ts)] = [] \<and>
   map_of (extract_tools_from_source [(str ''tools/ab.ts'', inner_ts)]) (str ''spectree__b'') = None"
  by (simp add: nested_ts_def inner_ts_def script_defs pattern_defs)

end
